theory Spec2Isabelle
  imports Complex_Main "HOL-Library.Word"
begin

unbundle bit_operations_syntax

section \<open>The int32 codec of server.py\<close>

text \<open>
  Python integers are unbounded, so the two helpers are modelled on \<open>int\<close>:
  \<open>>>\<close> is \<open>drop_bit\<close> (an arithmetic shift), \<open><<\<close> is \<open>push_bit\<close> and \<open>&\<close> is
  \<open>AND\<close> on the infinite two's-complement representation, exactly as in Python.
\<close>

definition split_int32_be :: "int \<Rightarrow> int list" where
  "split_int32_be v =
     (let hi = (drop_bit 16 v) AND 0xFFFF;
          lo = v AND 0xFFFF
      in [hi, lo])"

definition merge_int32_be :: "int \<Rightarrow> int \<Rightarrow> int" where
  "merge_int32_be hi lo =
     (let result = push_bit 16 hi + lo
      in if result > 0x7FFFFFFF then result - 0x100000000 else result)"

section \<open>The datastore\<close>

text \<open>
  \<open>BessDataBlock\<close> is a sparse data block: a dictionary from register address to value.
  Looking up an address that is not a key raises \<open>KeyError\<close>; indexing an empty list
  raises \<open>IndexError\<close>. Both are subclasses of Python's \<open>Exception\<close>.
\<close>

datatype exn = KeyError nat | IndexError

type_synonym block = "nat \<rightharpoonup> int"

definition bess_values :: "(nat \<times> int) list" where
  "bess_values =
     [(0xd000, 0), (0xd001, 0), (0xd002, 0), (0xd003, 0), (0xd004, 0), (0xd005, 0),
      (0xd006, 0), (0xd007, 0), (0xd00a, 0), (0xd00b, 0),
      (0x2502, 0), (0x2503, 0), (0x2504, 5000), (0x2505, 0),
      (0x2518, 0), (0x2519, 0), (0x251a, 0), (0x251b, 0)]"

definition BessDataBlock :: block where
  "BessDataBlock = map_of bess_values"

datatype bank = Coils | DiscreteInputs | InputRegisters | HoldingRegisters

record slave_context =
  hr :: block
  ir :: block
  co :: block
  di :: block
  zero_mode :: bool

definition store :: slave_context where
  "store = \<lparr> hr = BessDataBlock, ir = BessDataBlock, co = BessDataBlock,
             di = BessDataBlock, zero_mode = True \<rparr>"

text \<open>
  The slave context selects the bank from the Modbus function code (1, 5, 15: coils;
  2: discrete inputs; 4: input registers; 3, 6, 16, 22, 23: holding registers) and
  shifts the address by one unless \<open>zero_mode\<close> is set.
\<close>

definition decode :: "nat \<Rightarrow> exn + bank" where
  "decode fx =
     (if fx = 2 then Inr DiscreteInputs
      else if fx = 4 then Inr InputRegisters
      else if fx \<in> {3, 6, 16, 22, 23} then Inr HoldingRegisters
      else if fx \<in> {1, 5, 15} then Inr Coils
      else Inl (KeyError fx))"

fun bank_of :: "slave_context \<Rightarrow> bank \<Rightarrow> block" where
  "bank_of ctx Coils = co ctx"
| "bank_of ctx DiscreteInputs = di ctx"
| "bank_of ctx InputRegisters = ir ctx"
| "bank_of ctx HoldingRegisters = hr ctx"

fun bank_update :: "bank \<Rightarrow> block \<Rightarrow> slave_context \<Rightarrow> slave_context" where
  "bank_update Coils b ctx = ctx\<lparr>co := b\<rparr>"
| "bank_update DiscreteInputs b ctx = ctx\<lparr>di := b\<rparr>"
| "bank_update InputRegisters b ctx = ctx\<lparr>ir := b\<rparr>"
| "bank_update HoldingRegisters b ctx = ctx\<lparr>hr := b\<rparr>"

fun block_getValues :: "block \<Rightarrow> nat \<Rightarrow> nat \<Rightarrow> exn + int list" where
  "block_getValues b address 0 = Inr []"
| "block_getValues b address (Suc n) =
     (case b address of
        None \<Rightarrow> Inl (KeyError address)
      | Some v \<Rightarrow>
          (case block_getValues b (Suc address) n of
             Inl e \<Rightarrow> Inl e
           | Inr vs \<Rightarrow> Inr (v # vs)))"

fun block_setValues :: "block \<Rightarrow> nat \<Rightarrow> int list \<Rightarrow> block" where
  "block_setValues b address [] = b"
| "block_setValues b address (v # vs) = block_setValues (b(address \<mapsto> v)) (Suc address) vs"

definition block_validate :: "block \<Rightarrow> nat \<Rightarrow> nat \<Rightarrow> bool" where
  "block_validate b address count =
     (if count = 0 then False else list_all (\<lambda>a. b a \<noteq> None) [address ..< address + count])"

definition offset :: "slave_context \<Rightarrow> nat \<Rightarrow> nat" where
  "offset ctx address = (if zero_mode ctx then address else address + 1)"

definition getValues :: "slave_context \<Rightarrow> nat \<Rightarrow> nat \<Rightarrow> nat \<Rightarrow> exn + int list" where
  "getValues ctx fc_as_hex address count =
     (case decode fc_as_hex of
        Inl e \<Rightarrow> Inl e
      | Inr bk \<Rightarrow> block_getValues (bank_of ctx bk) (offset ctx address) count)"

definition setValues :: "slave_context \<Rightarrow> nat \<Rightarrow> nat \<Rightarrow> int list \<Rightarrow> exn + slave_context" where
  "setValues ctx fc_as_hex address vals =
     (case decode fc_as_hex of
        Inl e \<Rightarrow> Inl e
      | Inr bk \<Rightarrow>
          Inr (bank_update bk (block_setValues (bank_of ctx bk) (offset ctx address) vals) ctx))"

definition validate :: "slave_context \<Rightarrow> nat \<Rightarrow> nat \<Rightarrow> nat \<Rightarrow> exn + bool" where
  "validate ctx fc_as_hex address count =
     (case decode fc_as_hex of
        Inl e \<Rightarrow> Inl e
      | Inr bk \<Rightarrow> Inr (block_validate (bank_of ctx bk) (offset ctx address) count))"

section \<open>The simulation state and the updater\<close>

datatype log_entry = LogInfo | LogDebug int | LogWarning | LogError exn

text \<open>
  The module-level variables of server.py: the context, \<open>soc_value\<close> and
  \<open>watchdog_timeout\<close>. \<open>logged\<close> collects the calls made to the logger and \<open>slept\<close>
  adds up the seconds passed to \<open>asyncio.sleep\<close>.
\<close>

record sim =
  context0 :: slave_context
  soc_value :: int
  watchdog_timeout :: int
  logged :: "log_entry list"
  slept :: nat

definition init_sim :: sim where
  "init_sim = \<lparr> context0 = store, soc_value = 5000, watchdog_timeout = 0,
                logged = [LogInfo, LogInfo, LogInfo, LogInfo], slept = 0 \<rparr>"

text \<open>\<open>context[0].getValues(fc, address, count=1)[0]\<close>\<close>

definition read_first :: "nat \<Rightarrow> nat \<Rightarrow> sim \<Rightarrow> exn + int" where
  "read_first fc address s =
     (case getValues (context0 s) fc address 1 of
        Inl e \<Rightarrow> Inl e
      | Inr vs \<Rightarrow> (case vs of [] \<Rightarrow> Inl IndexError | v # _ \<Rightarrow> Inr v))"

text \<open>\<open>context[0].setValues(fc, address, vals)\<close>\<close>

definition write_values :: "nat \<Rightarrow> nat \<Rightarrow> int list \<Rightarrow> sim \<Rightarrow> exn + sim" where
  "write_values fc address vals s =
     (case setValues (context0 s) fc address vals of
        Inl e \<Rightarrow> Inl e
      | Inr ctx \<Rightarrow> Inr (s\<lparr>context0 := ctx\<rparr>))"

text \<open>
  Each block of the loop body maps a state to the exception raised, if any, and the
  state reached when it was raised or when the block ended: writes made before an
  exception stay.
\<close>

type_synonym block_result = "exn option \<times> sim"

definition mirror :: "nat \<Rightarrow> nat \<Rightarrow> nat \<Rightarrow> sim \<Rightarrow> block_result" where
  "mirror src_lo src_hi dst s =
     (case read_first 3 src_lo s of
        Inl e \<Rightarrow> (Some e, s)
      | Inr cmd_lo \<Rightarrow>
     (case read_first 3 src_hi s of
        Inl e \<Rightarrow> (Some e, s)
      | Inr cmd_hi \<Rightarrow>
     (let cmd_32 = merge_int32_be cmd_lo cmd_hi in
      case write_values 4 dst (split_int32_be cmd_32) s of
        Inl e \<Rightarrow> (Some e, s)
      | Inr s' \<Rightarrow> (None, s'))))"

definition watchdog :: "sim \<Rightarrow> block_result" where
  "watchdog s =
     (case read_first 3 0xd000 s of
        Inl e \<Rightarrow> (Some e, s)
      | Inr wd_lo \<Rightarrow>
     (case read_first 3 0xd001 s of
        Inl e \<Rightarrow> (Some e, s)
      | Inr wd_hi \<Rightarrow>
     (let watchdog_32 = merge_int32_be wd_lo wd_hi in
      if watchdog_32 \<noteq> 0
      then (None, s\<lparr>watchdog_timeout := 0, logged := logged s @ [LogDebug watchdog_32]\<rparr>)
      else
        (let s1 = s\<lparr>watchdog_timeout := watchdog_timeout s + 1\<rparr> in
         if watchdog_timeout s1 > 10
         then (None, s1\<lparr>logged := logged s1 @ [LogWarning]\<rparr>)
         else (None, s1)))))"

text \<open>
  \<open>now\<close> is the reading of \<open>time.time()\<close>, a non-negative number of seconds;
  \<open>now % 60\<close> is \<open>now - 60 * floor (now / 60)\<close>.
\<close>

definition soc_direction :: "real \<Rightarrow> int" where
  "soc_direction now = (if now - 60 * of_int \<lfloor>now / 60\<rfloor> < 30 then - 1 else 1)"

definition soc_update :: "real \<Rightarrow> sim \<Rightarrow> block_result" where
  "soc_update now s =
     (let s1 = s\<lparr>soc_value := soc_value s + soc_direction now\<rparr>;
          s2 = s1\<lparr>soc_value := max 1000 (min 9500 (soc_value s1))\<rparr>
      in case write_values 4 0x2504 (split_int32_be (soc_value s2)) s2 of
           Inl e \<Rightarrow> (Some e, s2)
         | Inr s3 \<Rightarrow> (None, s3))"

definition and_then :: "(sim \<Rightarrow> block_result) \<Rightarrow> (sim \<Rightarrow> block_result) \<Rightarrow> sim \<Rightarrow> block_result" where
  "and_then f g s = (case f s of (None, s') \<Rightarrow> g s' | (Some e, s') \<Rightarrow> (Some e, s'))"

definition updater_body :: "real \<Rightarrow> sim \<Rightarrow> block_result" where
  "updater_body now =
     and_then (mirror 0xd002 0xd003 0x2502)
    (and_then (mirror 0xd004 0xd005 0x2518)
    (and_then (mirror 0xd006 0xd007 0x251a)
    (and_then watchdog
              (soc_update now))))"

definition sleep :: "nat \<Rightarrow> sim \<Rightarrow> sim" where
  "sleep n s = s\<lparr>slept := slept s + n\<rparr>"

text \<open>One pass of \<open>while True\<close>: the body under \<open>try\<close>, the handler, then the sleep.\<close>

definition updater_iteration :: "real \<Rightarrow> sim \<Rightarrow> sim" where
  "updater_iteration now s =
     (case updater_body now s of
        (None, s') \<Rightarrow> sleep 1 s'
      | (Some e, s') \<Rightarrow> sleep 1 (s'\<lparr>logged := logged s' @ [LogError e]\<rparr>))"

text \<open>
  The loop never returns; \<open>updater_loop\<close> runs its first passes, one per clock reading,
  and \<open>updater\<close> is the coroutine from its first line.
\<close>

fun updater_loop :: "real list \<Rightarrow> sim \<Rightarrow> sim" where
  "updater_loop [] s = s"
| "updater_loop (now # nows) s = updater_loop nows (updater_iteration now s)"

definition updater :: "real list \<Rightarrow> sim \<Rightarrow> sim" where
  "updater nows s = updater_loop nows (s\<lparr>logged := logged s @ [LogInfo]\<rparr>)"

section \<open>Client requests\<close>

text \<open>
  Modelled from the spec: the protocol server that turns client requests into datastore
  calls is an external library and not part of the sources. Following the datastore
  contract (read of a bank at an address with a count, write of a bank at an address
  with a sequence of unsigned 16-bit values) and the addressing policy (a request that
  touches an undeclared address is answered with the illegal-data-address exception),
  a request is checked with \<open>validate\<close> before the datastore is touched. Holding
  registers are read with function code 3 and written with 16, input registers are read
  with 4, coils are read with 1 and written with 15, discrete inputs are read with 2;
  input registers and discrete inputs have no write function.
\<close>

datatype response =
    Values "int list"
  | Written
  | IllegalFunction
  | IllegalDataAddress
  | IllegalDataValue
  | DeviceFailure

fun read_fc :: "bank \<Rightarrow> nat" where
  "read_fc Coils = 1"
| "read_fc DiscreteInputs = 2"
| "read_fc HoldingRegisters = 3"
| "read_fc InputRegisters = 4"

fun write_fc :: "bank \<Rightarrow> nat option" where
  "write_fc Coils = Some 15"
| "write_fc HoldingRegisters = Some 16"
| "write_fc DiscreteInputs = None"
| "write_fc InputRegisters = None"

definition word16 :: "int \<Rightarrow> bool" where
  "word16 v = (0 \<le> v \<and> v \<le> 0xFFFF)"

definition client_read :: "bank \<Rightarrow> nat \<Rightarrow> nat \<Rightarrow> sim \<Rightarrow> response" where
  "client_read bk address count s =
     (if count = 0 then IllegalDataValue
      else (case validate (context0 s) (read_fc bk) address count of
              Inl e \<Rightarrow> DeviceFailure
            | Inr ok \<Rightarrow>
                if \<not> ok then IllegalDataAddress
                else (case getValues (context0 s) (read_fc bk) address count of
                        Inl e \<Rightarrow> DeviceFailure
                      | Inr vs \<Rightarrow> Values vs)))"

definition client_write :: "bank \<Rightarrow> nat \<Rightarrow> int list \<Rightarrow> sim \<Rightarrow> response \<times> sim" where
  "client_write bk address vals s =
     (case write_fc bk of
        None \<Rightarrow> (IllegalFunction, s)
      | Some fc \<Rightarrow>
          if vals = [] \<or> \<not> list_all word16 vals then (IllegalDataValue, s)
          else (case validate (context0 s) fc address (length vals) of
                  Inl e \<Rightarrow> (DeviceFailure, s)
                | Inr ok \<Rightarrow>
                    if \<not> ok then (IllegalDataAddress, s)
                    else (case write_values fc address vals s of
                            Inl e \<Rightarrow> (DeviceFailure, s)
                          | Inr s' \<Rightarrow> (Written, s'))))"

text \<open>
  A history of the running server: passes of the updater loop and client writes, in the
  order in which they happen. The loop body contains no \<open>await\<close>, so a pass is one
  step. Client reads do not change the state.
\<close>

datatype event = Tick real | ClientWrite bank nat "int list"

fun step :: "event \<Rightarrow> sim \<Rightarrow> sim" where
  "step (Tick now) s = updater_iteration now s"
| "step (ClientWrite bk address vals) s = snd (client_write bk address vals s)"

fun run :: "event list \<Rightarrow> sim \<Rightarrow> sim" where
  "run [] s = s"
| "run (ev # evs) s = run evs (step ev s)"

section \<open>Observations used to state the properties\<close>

text \<open>
  The logical 32-bit value of a register pair as the data model of the specification
  defines it: the high word at the lower address, the low word at the next one,
  decoded with \<open>merge_int32_be\<close>.
\<close>

definition logical_value :: "slave_context \<Rightarrow> nat \<Rightarrow> nat \<Rightarrow> exn + int" where
  "logical_value ctx fc address =
     (case getValues ctx fc address 2 of
        Inr [hi, lo] \<Rightarrow> Inr (merge_int32_be hi lo)
      | Inr _ \<Rightarrow> Inl IndexError
      | Inl e \<Rightarrow> Inl e)"

text \<open>
  The register table of the specification, as it is written there: the addresses it
  lists for each bank. It lists none for the coil and discrete-input banks.
\<close>

fun register_table :: "bank \<Rightarrow> nat set" where
  "register_table HoldingRegisters =
     {0xd000, 0xd001, 0xd002, 0xd003, 0xd004, 0xd005, 0xd006, 0xd007, 0xd00a, 0xd00b}"
| "register_table InputRegisters =
     {0x2502, 0x2503, 0x2504, 0x2505, 0x2518, 0x2519, 0x251a, 0x251b}"
| "register_table Coils = {}"
| "register_table DiscreteInputs = {}"

text \<open>The addresses that \<open>BessDataBlock\<close> declares.\<close>

definition bess_addresses :: "nat set" where
  "bess_addresses =
     {0xd000, 0xd001, 0xd002, 0xd003, 0xd004, 0xd005, 0xd006, 0xd007, 0xd00a, 0xd00b,
      0x2502, 0x2503, 0x2504, 0x2505, 0x2518, 0x2519, 0x251a, 0x251b}"

definition block_ok :: "block \<Rightarrow> bool" where
  "block_ok b = (dom b = bess_addresses \<and> (\<forall>a v. b a = Some v \<longrightarrow> word16 v))"

text \<open>
  The states the server can be in: every bank declares exactly the addresses of
  \<open>BessDataBlock\<close>, every register holds an unsigned 16-bit value, addressing is
  zero-based and the timeout counter is not negative.
\<close>

definition well_formed :: "sim \<Rightarrow> bool" where
  "well_formed s =
     (zero_mode (context0 s) \<and> block_ok (hr (context0 s)) \<and> block_ok (ir (context0 s)) \<and>
      block_ok (co (context0 s)) \<and> block_ok (di (context0 s)) \<and> 0 \<le> watchdog_timeout s)"

definition warnings :: "sim \<Rightarrow> nat" where
  "warnings s = length (filter (\<lambda>e. e = LogWarning) (logged s))"

fun ticks :: "event list \<Rightarrow> nat" where
  "ticks [] = 0"
| "ticks (Tick now # evs) = Suc (ticks evs)"
| "ticks (ClientWrite bk address vals # evs) = ticks evs"

text \<open>Every pass of the loop in the history reads a watchdog value of zero.\<close>

fun watchdog_silent :: "event list \<Rightarrow> sim \<Rightarrow> bool" where
  "watchdog_silent [] s = True"
| "watchdog_silent (Tick now # evs) s =
     (logical_value (context0 s) 3 0xd000 = Inr 0 \<and> watchdog_silent evs (step (Tick now) s))"
| "watchdog_silent (ClientWrite bk address vals # evs) s =
     watchdog_silent evs (step (ClientWrite bk address vals) s)"

section \<open>One pass of the loop in closed form\<close>

text \<open>
  What a pass computes when no read fails: the new state of charge, the effect of the
  watchdog block for a decoded watchdog value \<open>w\<close>, the input bank after the three
  mirror blocks, and the state after the body.
\<close>

definition next_soc :: "real \<Rightarrow> int \<Rightarrow> int" where
  "next_soc now v = max 1000 (min 9500 (v + soc_direction now))"

definition watchdog_result :: "int \<Rightarrow> sim \<Rightarrow> sim" where
  "watchdog_result w s =
     (if w \<noteq> 0
      then s\<lparr>watchdog_timeout := 0, logged := logged s @ [LogDebug w]\<rparr>
      else if watchdog_timeout s + 1 > 10
      then s\<lparr>watchdog_timeout := watchdog_timeout s + 1, logged := logged s @ [LogWarning]\<rparr>
      else s\<lparr>watchdog_timeout := watchdog_timeout s + 1\<rparr>)"

definition mirrored :: "block \<Rightarrow> block \<Rightarrow> block" where
  "mirrored h i =
     i(0x2502 := h 0xd002, 0x2503 := h 0xd003,
       0x2518 := h 0xd004, 0x2519 := h 0xd005,
       0x251a := h 0xd006, 0x251b := h 0xd007)"

definition pass_result :: "real \<Rightarrow> sim \<Rightarrow> sim" where
  "pass_result now s =
     (let w = merge_int32_be (the (hr (context0 s) 0xd000)) (the (hr (context0 s) 0xd001));
          s1 = watchdog_result w s
      in s1\<lparr>soc_value := next_soc now (soc_value s),
            context0 := (context0 s)\<lparr>ir := (mirrored (hr (context0 s)) (ir (context0 s)))
               (0x2504 \<mapsto> 0, 0x2505 \<mapsto> next_soc now (soc_value s))\<rparr>\<rparr>)"

section \<open>What a pass leaves alone\<close>

text \<open>
  The part of the state that no block of the loop body writes: the holding, coil and
  discrete-input banks, the addressing mode and the time slept.
\<close>

definition frame :: "sim \<Rightarrow> sim \<Rightarrow> bool" where
  "frame s s' =
     (hr (context0 s') = hr (context0 s) \<and> co (context0 s') = co (context0 s) \<and>
      di (context0 s') = di (context0 s) \<and> zero_mode (context0 s') = zero_mode (context0 s) \<and>
      slept s' = slept s)"

section \<open>States used as examples\<close>

text \<open>The initial state after a client has written -1 to p_command in one request.\<close>

definition p_written :: sim where
  "p_written = snd (client_write HoldingRegisters 0xd004 [0xFFFF, 0xFFFF] init_sim)"


text \<open>A state in which the holding bank has lost its registers, so that the first read of a pass raises.\<close>

definition holding_lost :: sim where
  "holding_lost = init_sim\<lparr>context0 := store\<lparr>hr := Map.empty\<rparr>\<rparr>"



text \<open>The initial state after a client has written 1 to holding register 0xd001.\<close>

definition watchdog_fed :: sim where
  "watchdog_fed = init_sim\<lparr>context0 := store\<lparr>hr := BessDataBlock(0xd001 \<mapsto> 1)\<rparr>\<rparr>"

section \<open>Codec lemmas\<close>

lemma and_0xFFFF: "(x::int) AND 0xFFFF = x mod 65536"
proof -
  have "x AND mask 16 = x mod 2 ^ 16"
    by (simp add: take_bit_eq_mask [symmetric] take_bit_eq_mod)
  moreover have "(mask 16 :: int) = 65535"
    by (simp add: mask_eq_exp_minus_1)
  ultimately show ?thesis by simp
qed

lemma split_int32_be_arith:
  "split_int32_be v = [(v div 65536) mod 65536, v mod 65536]"
  by (simp add: split_int32_be_def and_0xFFFF drop_bit_eq_div)

lemma merge_int32_be_arith:
  "merge_int32_be hi lo =
     (if hi * 65536 + lo > 2147483647 then hi * 65536 + lo - 4294967296 else hi * 65536 + lo)"
  by (simp add: merge_int32_be_def push_bit_eq_mult Let_def)

lemma merge_split:
  assumes lo: "- 2147483648 \<le> v" and hi: "v \<le> 2147483647"
  shows "merge_int32_be ((v div 65536) mod 65536) (v mod 65536) = v"
proof -
  define q where "q = v div 65536"
  define r where "r = v mod 65536"
  have v: "v = q * 65536 + r" by (simp add: q_def r_def)
  have r: "0 \<le> r" "r < 65536" by (simp_all add: r_def)
  have q: "- 32768 \<le> q" "q \<le> 32767" using lo hi v r by linarith+
  show ?thesis
  proof (cases "0 \<le> q")
    case True
    then have "q mod 65536 = q" using q by simp
    then show ?thesis
      unfolding merge_int32_be_arith q_def [symmetric] r_def [symmetric]
      using v hi by simp
  next
    case False
    then have "q mod 65536 = q + 65536"
      using q by (intro int_mod_pos_eq [where q = "- 1"]) simp_all
    then show ?thesis
      unfolding merge_int32_be_arith q_def [symmetric] r_def [symmetric]
      using v lo False r by simp
  qed
qed

lemma split_merge:
  assumes "word16 hi" "word16 lo"
  shows "split_int32_be (merge_int32_be hi lo) = [hi, lo]"
proof -
  have b: "0 \<le> hi" "hi \<le> 65535" "0 \<le> lo" "lo \<le> 65535"
    using assms by (simp_all add: word16_def)
  have m: "(hi * 65536 + lo) mod 65536 = lo" using b by simp
  have d: "(hi * 65536 + lo) div 65536 = hi" using b by simp
  have m2: "(hi * 65536 + lo - 4294967296) mod 65536 = lo"
    using b by (intro int_mod_pos_eq [where q = "hi - 65536"]) simp_all
  have d2: "(hi * 65536 + lo - 4294967296) div 65536 = hi - 65536"
    using b by (intro int_div_pos_eq [where r = lo]) simp_all
  have hm: "hi mod 65536 = hi" using b by simp
  have hm2: "(hi - 65536) mod 65536 = hi"
    using b by (intro int_mod_pos_eq [where q = "- 1"]) simp_all
  show ?thesis
    unfolding merge_int32_be_arith split_int32_be_arith
    using b by (simp add: m d m2 d2 hm hm2)
qed

lemma split_small:
  assumes "0 \<le> v" "v \<le> 65535"
  shows "split_int32_be v = [0, v]"
  using assms by (simp add: split_int32_be_arith)

lemma decode_simps:
  "decode 3 = Inr HoldingRegisters" "decode 4 = Inr InputRegisters"
  "decode 1 = Inr Coils" "decode 2 = Inr DiscreteInputs"
  "decode 15 = Inr Coils" "decode 16 = Inr HoldingRegisters"
  by (simp_all add: decode_def)

lemma block_okD:
  assumes "block_ok b" "a \<in> bess_addresses"
  shows "\<exists>v. b a = Some v \<and> word16 v"
proof -
  from assms have "a \<in> dom b" by (simp add: block_ok_def)
  then obtain v where "b a = Some v" by auto
  with assms show ?thesis by (auto simp: block_ok_def)
qed

lemma read_first_holding:
  assumes "zero_mode (context0 s)" "hr (context0 s) a = Some v"
  shows "read_first 3 a s = Inr v"
  using assms by (simp add: read_first_def getValues_def decode_simps offset_def)

lemma write_values_input:
  assumes "zero_mode (context0 s)"
  shows "write_values 4 a [h, l] s =
           Inr (s\<lparr>context0 := (context0 s)\<lparr>ir := (ir (context0 s))(a \<mapsto> h, Suc a \<mapsto> l)\<rparr>\<rparr>)"
  using assms by (simp add: write_values_def setValues_def decode_simps offset_def)

lemma mirror_ok:
  assumes "zero_mode (context0 s)"
    and "hr (context0 s) a = Some x" "hr (context0 s) b = Some y"
    and "word16 x" "word16 y"
  shows "mirror a b d s =
           (None, s\<lparr>context0 := (context0 s)\<lparr>ir := (ir (context0 s))(d \<mapsto> x, Suc d \<mapsto> y)\<rparr>\<rparr>)"
  using assms
  by (simp add: mirror_def read_first_holding split_merge write_values_input)

lemma watchdog_ok:
  assumes "zero_mode (context0 s)"
    and "hr (context0 s) 0xd000 = Some x" "hr (context0 s) 0xd001 = Some y"
  shows "watchdog s =
           (None,
            if merge_int32_be x y \<noteq> 0
            then s\<lparr>watchdog_timeout := 0, logged := logged s @ [LogDebug (merge_int32_be x y)]\<rparr>
            else if watchdog_timeout s + 1 > 10
            then s\<lparr>watchdog_timeout := watchdog_timeout s + 1, logged := logged s @ [LogWarning]\<rparr>
            else s\<lparr>watchdog_timeout := watchdog_timeout s + 1\<rparr>)"
  using assms
  by (simp add: watchdog_def read_first_holding Let_def)

lemma next_soc_range: "1000 \<le> next_soc now v" "next_soc now v \<le> 9500"
  by (simp_all add: next_soc_def)

lemma soc_update_ok:
  assumes "zero_mode (context0 s)"
  shows "soc_update now s =
           (None, s\<lparr>soc_value := next_soc now (soc_value s),
                     context0 := (context0 s)\<lparr>ir := (ir (context0 s))
                        (0x2504 \<mapsto> 0, 0x2505 \<mapsto> next_soc now (soc_value s))\<rparr>\<rparr>)"
proof -
  have "split_int32_be (next_soc now (soc_value s)) = [0, next_soc now (soc_value s)]"
    using next_soc_range [of now "soc_value s"] by (intro split_small) simp_all
  then show ?thesis
    using assms
    by (simp add: soc_update_def Let_def next_soc_def [symmetric] write_values_input)
qed

lemma watchdog_result_fields [simp]:
  "context0 (watchdog_result w s) = context0 s"
  "soc_value (watchdog_result w s) = soc_value s"
  "slept (watchdog_result w s) = slept s"
  by (simp_all add: watchdog_result_def)

lemma watchdog_eq:
  assumes "zero_mode (context0 s)"
    and "hr (context0 s) 0xd000 = Some x" "hr (context0 s) 0xd001 = Some y"
  shows "watchdog s = (None, watchdog_result (merge_int32_be x y) s)"
  using assms by (simp add: watchdog_ok watchdog_result_def)

lemma updater_body_well_formed:
  assumes "well_formed s"
  shows "updater_body now s = (None, pass_result now s)"
proof -
  have z: "zero_mode (context0 s)" and h: "block_ok (hr (context0 s))"
    using assms by (simp_all add: well_formed_def)
  obtain w0 where w0: "hr (context0 s) 0xd000 = Some w0"
    using block_okD [OF h, of "0xd000"] by (auto simp: bess_addresses_def)
  obtain w1 where w1: "hr (context0 s) 0xd001 = Some w1"
    using block_okD [OF h, of "0xd001"] by (auto simp: bess_addresses_def)
  obtain c0 where c0: "hr (context0 s) 0xd002 = Some c0" "word16 c0"
    using block_okD [OF h, of "0xd002"] by (auto simp: bess_addresses_def)
  obtain c1 where c1: "hr (context0 s) 0xd003 = Some c1" "word16 c1"
    using block_okD [OF h, of "0xd003"] by (auto simp: bess_addresses_def)
  obtain p0 where p0: "hr (context0 s) 0xd004 = Some p0" "word16 p0"
    using block_okD [OF h, of "0xd004"] by (auto simp: bess_addresses_def)
  obtain p1 where p1: "hr (context0 s) 0xd005 = Some p1" "word16 p1"
    using block_okD [OF h, of "0xd005"] by (auto simp: bess_addresses_def)
  obtain q0 where q0: "hr (context0 s) 0xd006 = Some q0" "word16 q0"
    using block_okD [OF h, of "0xd006"] by (auto simp: bess_addresses_def)
  obtain q1 where q1: "hr (context0 s) 0xd007 = Some q1" "word16 q1"
    using block_okD [OF h, of "0xd007"] by (auto simp: bess_addresses_def)
  define s1 where "s1 = s\<lparr>context0 := (context0 s)\<lparr>ir := (ir (context0 s))(0x2502 \<mapsto> c0, 0x2503 \<mapsto> c1)\<rparr>\<rparr>"
  define s2 where "s2 = s1\<lparr>context0 := (context0 s1)\<lparr>ir := (ir (context0 s1))(0x2518 \<mapsto> p0, 0x2519 \<mapsto> p1)\<rparr>\<rparr>"
  define s3 where "s3 = s2\<lparr>context0 := (context0 s2)\<lparr>ir := (ir (context0 s2))(0x251a \<mapsto> q0, 0x251b \<mapsto> q1)\<rparr>\<rparr>"
  have m1: "mirror 0xd002 0xd003 0x2502 s = (None, s1)"
    using mirror_ok [OF z c0(1) c1(1) c0(2) c1(2), of "0x2502"] by (simp add: s1_def)
  have z1: "zero_mode (context0 s1)" and h1: "hr (context0 s1) = hr (context0 s)"
    using z by (simp_all add: s1_def)
  have m2: "mirror 0xd004 0xd005 0x2518 s1 = (None, s2)"
    using mirror_ok [OF z1, of "0xd004" p0 "0xd005" p1 "0x2518"] p0 p1
    by (simp add: h1 s2_def)
  have z2: "zero_mode (context0 s2)" and h2: "hr (context0 s2) = hr (context0 s)"
    using z1 h1 by (simp_all add: s2_def)
  have m3: "mirror 0xd006 0xd007 0x251a s2 = (None, s3)"
    using mirror_ok [OF z2, of "0xd006" q0 "0xd007" q1 "0x251a"] q0 q1
    by (simp add: h2 s3_def)
  have z3: "zero_mode (context0 s3)" and h3: "hr (context0 s3) = hr (context0 s)"
    using z2 h2 by (simp_all add: s3_def)
  have m4: "watchdog s3 = (None, watchdog_result (merge_int32_be w0 w1) s3)"
    using watchdog_eq [OF z3, of w0 w1] w0 w1 by (simp add: h3)
  have i3: "ir (context0 s3) = mirrored (hr (context0 s)) (ir (context0 s))"
    using c0 c1 p0 p1 q0 q1 by (simp add: s3_def s2_def s1_def mirrored_def)
  have f3: "soc_value s3 = soc_value s" "watchdog_timeout s3 = watchdog_timeout s"
    "logged s3 = logged s" "slept s3 = slept s"
    by (simp_all add: s3_def s2_def s1_def)
  have m5: "soc_update now (watchdog_result (merge_int32_be w0 w1) s3) = (None, pass_result now s)"
    using z3 w0 w1
    apply (simp add: soc_update_ok pass_result_def Let_def f3 i3)
    apply (simp add: watchdog_result_def f3 s3_def s2_def s1_def)
    done
  show ?thesis
    by (simp add: updater_body_def and_then_def m1 m2 m3 m4 m5)
qed

lemma dom_BessDataBlock: "dom BessDataBlock = bess_addresses"
  by (simp add: BessDataBlock_def bess_values_def bess_addresses_def dom_map_of_conv_image_fst)

lemma block_ok_BessDataBlock: "block_ok BessDataBlock"
proof -
  have "word16 v" if "BessDataBlock a = Some v" for a v
  proof -
    from that have "(a, v) \<in> set bess_values"
      by (simp add: BessDataBlock_def map_of_SomeD)
    then show ?thesis by (auto simp: bess_values_def word16_def)
  qed
  then show ?thesis by (simp add: block_ok_def dom_BessDataBlock)
qed

lemma well_formed_init_sim: "well_formed init_sim"
  by (simp add: well_formed_def init_sim_def store_def block_ok_BessDataBlock)

lemma block_ok_upd:
  assumes "block_ok b" "a \<in> bess_addresses" "word16 v"
  shows "block_ok (b(a \<mapsto> v))"
  using assms by (auto simp: block_ok_def)

lemma block_ok_setValues:
  assumes "block_ok b" "list_all word16 vs"
    and "list_all (\<lambda>a. b a \<noteq> None) [address ..< address + length vs]"
  shows "block_ok (block_setValues b address vs)"
  using assms
proof (induction vs arbitrary: b address)
  case Nil
  then show ?case by simp
next
  case (Cons v vs)
  have "address \<in> set [address ..< address + length (v # vs)]" by simp
  with Cons.prems(3) have "b address \<noteq> None" unfolding list_all_iff by blast
  then have a: "address \<in> bess_addresses"
    using Cons.prems(1) by (auto simp: block_ok_def)
  have ok: "block_ok (b(address \<mapsto> v))"
    using Cons.prems(1,2) a by (intro block_ok_upd) simp_all
  have rest: "list_all (\<lambda>x. (b(address \<mapsto> v)) x \<noteq> None) [Suc address ..< Suc address + length vs]"
    using Cons.prems(3) by (auto simp: list_all_iff)
  have "block_ok (block_setValues (b(address \<mapsto> v)) (Suc address) vs)"
    by (rule Cons.IH [OF ok _ rest]) (use Cons.prems(2) in simp)
  then show ?case by simp
qed

lemma next_soc_word16: "word16 (next_soc now v)"
  using next_soc_range [of now v] by (simp add: word16_def)

lemma block_ok_pass:
  assumes h: "block_ok h" and i: "block_ok i"
  shows "block_ok ((mirrored h i)(0x2504 \<mapsto> 0, 0x2505 \<mapsto> next_soc now v))"
proof -
  have m: "block_ok (i(a := h b))"
    if A: "a \<in> bess_addresses" and B: "b \<in> bess_addresses" and I: "block_ok i" for a b i
  proof -
    obtain x where "h b = Some x" "word16 x" using block_okD [OF h B] by auto
    then show ?thesis using block_ok_upd [OF I A, of x] by simp
  qed
  have "block_ok (mirrored h i)"
    unfolding mirrored_def
    by (intro m i) (simp_all add: bess_addresses_def)
  then show ?thesis
    by (intro block_ok_upd next_soc_word16) (simp_all add: bess_addresses_def word16_def)
qed

lemma watchdog_result_nonneg:
  "0 \<le> watchdog_timeout s \<Longrightarrow> 0 \<le> watchdog_timeout (watchdog_result w s)"
  by (simp add: watchdog_result_def)

lemma updater_iteration_well_formed:
  assumes "well_formed s"
  shows "updater_iteration now s = sleep 1 (pass_result now s)"
  by (simp add: updater_iteration_def updater_body_well_formed [OF assms])

lemma well_formed_pass_result:
  assumes "well_formed s"
  shows "well_formed (sleep 1 (pass_result now s))"
proof -
  have "block_ok ((mirrored (hr (context0 s)) (ir (context0 s)))
          (0x2504 \<mapsto> 0, 0x2505 \<mapsto> next_soc now (soc_value s)))"
    using assms by (intro block_ok_pass) (simp_all add: well_formed_def)
  moreover have "0 \<le> watchdog_timeout (watchdog_result w s)" for w
    using assms by (intro watchdog_result_nonneg) (simp add: well_formed_def)
  ultimately show ?thesis
    using assms
    by (simp add: well_formed_def sleep_def pass_result_def Let_def)
qed

lemma well_formed_updater_iteration: "well_formed s \<Longrightarrow> well_formed (updater_iteration now s)"
  by (simp only: updater_iteration_well_formed well_formed_pass_result)

lemma bank_update_other:
  "zero_mode (bank_update bk b ctx) = zero_mode ctx"
  by (cases bk) simp_all

lemma well_formed_client_write:
  assumes "well_formed s"
  shows "well_formed (snd (client_write bk address vals s))"
proof (cases "write_fc bk")
  case None
  then show ?thesis using assms by (simp add: client_write_def)
next
  case (Some fc)
  then have d: "decode fc = Inr bk"
    by (cases bk) (auto simp: decode_simps)
  have z: "zero_mode (context0 s)" using assms by (simp add: well_formed_def)
  have bo: "block_ok (bank_of (context0 s) bk)"
    using assms by (cases bk) (simp_all add: well_formed_def)
  have v: "validate (context0 s) fc address (length vals) =
      Inr (block_validate (bank_of (context0 s) bk) address (length vals))"
    using z by (simp add: validate_def d offset_def)
  show ?thesis
  proof (cases "vals \<noteq> [] \<and> list_all word16 vals \<and>
      block_validate (bank_of (context0 s) bk) address (length vals)")
    case False
    then show ?thesis using assms Some by (auto simp: client_write_def v)
  next
    case True
    then have "block_validate (bank_of (context0 s) bk) address (length vals)"
      by simp
    then have "list_all (\<lambda>a. bank_of (context0 s) bk a \<noteq> None) [address ..< address + length vals]"
      unfolding block_validate_def by (simp only: split: if_splits)
    then have "block_ok (block_setValues (bank_of (context0 s) bk) address vals)"
      using bo True by (intro block_ok_setValues) simp_all
    then have "well_formed (s\<lparr>context0 := bank_update bk (block_setValues (bank_of (context0 s) bk) address vals) (context0 s)\<rparr>)"
      using assms by (cases bk) (simp_all add: well_formed_def)
    then show ?thesis
      using True Some z
      by (simp add: client_write_def v write_values_def setValues_def d offset_def)
  qed
qed

lemma well_formed_step: "well_formed s \<Longrightarrow> well_formed (step ev s)"
  by (cases ev) (simp_all add: well_formed_updater_iteration well_formed_client_write)

lemma well_formed_run: "well_formed s \<Longrightarrow> well_formed (run evs s)"
  by (induction evs arbitrary: s) (simp_all add: well_formed_step)

lemma block_getValues_2:
  assumes "b a = Some x" "b (Suc a) = Some y"
  shows "block_getValues b a 2 = Inr [x, y]"
  using assms by (simp add: numeral_2_eq_2)

lemma block_getValues_1:
  assumes "b a = Some x"
  shows "block_getValues b a 1 = Inr [x]"
  using assms by simp

lemma merge_small:
  assumes "0 \<le> v" "v \<le> 65535"
  shows "merge_int32_be 0 v = v"
  using assms by (simp add: merge_int32_be_arith)

lemma context0_pass:
  "context0 (sleep n (pass_result now s)) =
     (context0 s)\<lparr>ir := (mirrored (hr (context0 s)) (ir (context0 s)))
        (0x2504 \<mapsto> 0, 0x2505 \<mapsto> next_soc now (soc_value s))\<rparr>"
  by (simp add: sleep_def pass_result_def Let_def)

lemma soc_value_pass:
  "soc_value (sleep n (pass_result now s)) = next_soc now (soc_value s)"
  by (simp add: sleep_def pass_result_def Let_def)

section \<open>The watchdog block and the initial registers\<close>

lemma logical_value_holding:
  assumes "zero_mode ctx" "hr ctx a = Some x" "hr ctx (Suc a) = Some y"
  shows "logical_value ctx 3 a = Inr (merge_int32_be x y)"
  using assms
  by (simp add: logical_value_def getValues_def decode_simps offset_def block_getValues_2)

lemma watchdog_well_formed:
  assumes "well_formed s"
  shows "\<exists>w. logical_value (context0 s) 3 0xd000 = Inr w \<and>
           watchdog_timeout (updater_iteration now s) = watchdog_timeout (watchdog_result w s) \<and>
           logged (updater_iteration now s) = logged (watchdog_result w s)"
proof -
  have z: "zero_mode (context0 s)" and h: "block_ok (hr (context0 s))"
    using assms by (simp_all add: well_formed_def)
  obtain w0 where w0: "hr (context0 s) 0xd000 = Some w0"
    using block_okD [OF h, of "0xd000"] by (auto simp: bess_addresses_def)
  obtain w1 where w1: "hr (context0 s) 0xd001 = Some w1"
    using block_okD [OF h, of "0xd001"] by (auto simp: bess_addresses_def)
  have "logical_value (context0 s) 3 0xd000 = Inr (merge_int32_be w0 w1)"
    using z w0 w1 by (intro logical_value_holding) simp_all
  moreover have "watchdog_timeout (updater_iteration now s) =
      watchdog_timeout (watchdog_result (merge_int32_be w0 w1) s)"
    using w0 w1
    by (simp add: updater_iteration_well_formed [OF assms] sleep_def pass_result_def Let_def)
  moreover have "logged (updater_iteration now s) =
      logged (watchdog_result (merge_int32_be w0 w1) s)"
    using w0 w1
    by (simp add: updater_iteration_well_formed [OF assms] sleep_def pass_result_def Let_def)
  ultimately show ?thesis by blast
qed

lemma watchdog_nonzero:
  assumes "well_formed s" "logical_value (context0 s) 3 0xd000 \<noteq> Inr 0"
  shows "watchdog_timeout (updater_iteration now s) = 0"
    and "warnings (updater_iteration now s) = warnings s"
proof -
  obtain w where w: "logical_value (context0 s) 3 0xd000 = Inr w"
    "watchdog_timeout (updater_iteration now s) = watchdog_timeout (watchdog_result w s)"
    "logged (updater_iteration now s) = logged (watchdog_result w s)"
    using watchdog_well_formed [OF assms(1)] by blast
  with assms(2) have "w \<noteq> 0" by auto
  then show "watchdog_timeout (updater_iteration now s) = 0"
    and "warnings (updater_iteration now s) = warnings s"
    by (simp_all add: w warnings_def watchdog_result_def)
qed

lemma watchdog_zero:
  assumes "well_formed s" "logical_value (context0 s) 3 0xd000 = Inr 0"
  shows "watchdog_timeout (updater_iteration now s) = watchdog_timeout s + 1"
    and "warnings (updater_iteration now s) =
           warnings s + (if watchdog_timeout s + 1 > 10 then 1 else 0)"
proof -
  obtain w where w: "logical_value (context0 s) 3 0xd000 = Inr w"
    "watchdog_timeout (updater_iteration now s) = watchdog_timeout (watchdog_result w s)"
    "logged (updater_iteration now s) = logged (watchdog_result w s)"
    using watchdog_well_formed [OF assms(1)] by blast
  with assms(2) have "w = 0" by auto
  then show "watchdog_timeout (updater_iteration now s) = watchdog_timeout s + 1"
    and "warnings (updater_iteration now s) =
           warnings s + (if watchdog_timeout s + 1 > 10 then 1 else 0)"
    by (simp_all add: w warnings_def watchdog_result_def)
qed

lemma client_write_sim_fields:
  "watchdog_timeout (snd (client_write bk address vals s)) = watchdog_timeout s"
  "logged (snd (client_write bk address vals s)) = logged s"
  by (auto simp: client_write_def write_values_def split: option.splits sum.splits)

lemma silent_run:
  assumes "well_formed s" "watchdog_silent evs s"
  shows "watchdog_timeout (run evs s) = watchdog_timeout s + int (ticks evs) \<and>
         int (warnings s) + int (ticks evs) - max 0 (10 - watchdog_timeout s)
           \<le> int (warnings (run evs s))"
  using assms
proof (induction evs arbitrary: s)
  case Nil
  then show ?case by simp
next
  case (Cons ev evs)
  show ?case
  proof (cases ev)
    case (Tick now)
    let ?s = "updater_iteration now s"
    have z: "logical_value (context0 s) 3 0xd000 = Inr 0" and r: "watchdog_silent evs ?s"
      using Cons.prems(2) Tick by simp_all
    have w: "well_formed ?s" using Cons.prems(1) by (rule well_formed_updater_iteration)
    note ih = Cons.IH [OF w r]
    note t = watchdog_zero [OF Cons.prems(1) z, of now]
    show ?thesis
      using ih t by (simp add: Tick split: if_splits)
  next
    case (ClientWrite bk address vals)
    let ?s = "snd (client_write bk address vals s)"
    have r: "watchdog_silent evs ?s" using Cons.prems(2) ClientWrite by simp
    have w: "well_formed ?s" using Cons.prems(1) by (rule well_formed_client_write)
    note ih = Cons.IH [OF w r]
    show ?thesis
      using ih by (simp add: ClientWrite client_write_sim_fields warnings_def)
  qed
qed

lemma warning_no_register:
  assumes "well_formed s" "0 \<le> c"
  shows "context0 (updater_iteration now (s\<lparr>watchdog_timeout := c\<rparr>)) =
           context0 (updater_iteration now s)"
    and "soc_value (updater_iteration now (s\<lparr>watchdog_timeout := c\<rparr>)) =
           soc_value (updater_iteration now s)"
proof -
  have w: "well_formed (s\<lparr>watchdog_timeout := c\<rparr>)"
    using assms by (simp add: well_formed_def)
  show "context0 (updater_iteration now (s\<lparr>watchdog_timeout := c\<rparr>)) =
           context0 (updater_iteration now s)"
    by (simp only: updater_iteration_well_formed [OF w]
        updater_iteration_well_formed [OF assms(1)] context0_pass) simp
  show "soc_value (updater_iteration now (s\<lparr>watchdog_timeout := c\<rparr>)) =
           soc_value (updater_iteration now s)"
    by (simp only: updater_iteration_well_formed [OF w]
        updater_iteration_well_formed [OF assms(1)] soc_value_pass) simp
qed

lemma BessDataBlock_lookup:
  "BessDataBlock 0xd000 = Some 0" "BessDataBlock 0xd001 = Some 0"
  "BessDataBlock 0xd002 = Some 0" "BessDataBlock 0xd003 = Some 0"
  "BessDataBlock 0xd004 = Some 0" "BessDataBlock 0xd005 = Some 0"
  "BessDataBlock 0xd006 = Some 0" "BessDataBlock 0xd007 = Some 0"
  "BessDataBlock 0xd00a = Some 0" "BessDataBlock 0xd00b = Some 0"
  "BessDataBlock 0x2502 = Some 0" "BessDataBlock 0x2503 = Some 0"
  "BessDataBlock 0x2504 = Some 5000" "BessDataBlock 0x2505 = Some 0"
  "BessDataBlock 0x2518 = Some 0" "BessDataBlock 0x2519 = Some 0"
  "BessDataBlock 0x251a = Some 0" "BessDataBlock 0x251b = Some 0"
  by (simp_all add: BessDataBlock_def bess_values_def)

lemma getValues_init:
  assumes "BessDataBlock a = Some x" "BessDataBlock (Suc a) = Some y" "fc = 3 \<or> fc = 4"
  shows "getValues (context0 init_sim) fc a 2 = Inr [x, y]"
  using assms
  by (auto simp: init_sim_def store_def getValues_def decode_simps offset_def block_getValues_2)

lemma logical_value_init:
  assumes "BessDataBlock a = Some x" "BessDataBlock (Suc a) = Some y" "fc = 3 \<or> fc = 4"
  shows "logical_value (context0 init_sim) fc a = Inr (merge_int32_be x y)"
  using getValues_init [OF assms] by (simp add: logical_value_def)

lemma merge_zero: "merge_int32_be 0 0 = 0"
  by (simp add: merge_int32_be_arith)

lemma logical_value_pass:
  assumes "well_formed s"
  shows "logical_value (context0 (updater_iteration now s)) 3 a = logical_value (context0 s) 3 a"
  by (simp add: updater_iteration_well_formed [OF assms] context0_pass logical_value_def
      getValues_def decode_simps offset_def)

lemma silent_ticks:
  assumes "well_formed s" "logical_value (context0 s) 3 0xd000 = Inr 0"
  shows "watchdog_silent (map Tick nows) s"
  using assms
proof (induction nows arbitrary: s)
  case Nil
  then show ?case by simp
next
  case (Cons now nows)
  have "well_formed (updater_iteration now s)"
    using Cons.prems(1) by (rule well_formed_updater_iteration)
  moreover have "logical_value (context0 (updater_iteration now s)) 3 0xd000 = Inr 0"
    using Cons.prems by (simp add: logical_value_pass)
  ultimately have "watchdog_silent (map Tick nows) (updater_iteration now s)"
    by (rule Cons.IH)
  then show ?case using Cons.prems(2) by simp
qed

lemma ticks_map_Tick: "ticks (map Tick nows) = length nows"
  by (induction nows) simp_all

lemma well_formed_watchdog_fed: "well_formed watchdog_fed"
proof -
  have "block_ok (BessDataBlock(0xd001 \<mapsto> 1))"
    by (intro block_ok_upd block_ok_BessDataBlock) (simp_all add: bess_addresses_def word16_def)
  then show ?thesis
    by (simp add: watchdog_fed_def well_formed_def init_sim_def store_def block_ok_BessDataBlock)
qed

lemma logical_value_watchdog_fed: "logical_value (context0 watchdog_fed) 3 0xd000 = Inr 1"
proof -
  have "logical_value (context0 watchdog_fed) 3 0xd000 = Inr (merge_int32_be 0 1)"
    by (intro logical_value_holding)
      (simp_all add: watchdog_fed_def store_def BessDataBlock_lookup)
  then show ?thesis by (simp add: merge_int32_be_arith)
qed

lemma soc_value_written:
  assumes "well_formed s"
  shows "getValues (context0 (updater_iteration now s)) 4 0x2504 2 =
           Inr (split_int32_be (soc_value (updater_iteration now s)))"
proof -
  let ?v = "next_soc now (soc_value s)"
  have z: "zero_mode (context0 s)" using assms by (simp add: well_formed_def)
  have r: "1000 \<le> ?v" "?v \<le> 9500" by (rule next_soc_range)+
  have sv: "soc_value (updater_iteration now s) = ?v"
    by (simp only: updater_iteration_well_formed [OF assms] soc_value_pass)
  have c: "context0 (updater_iteration now s) =
      (context0 s)\<lparr>ir := (mirrored (hr (context0 s)) (ir (context0 s)))
        (0x2504 \<mapsto> 0, 0x2505 \<mapsto> ?v)\<rparr>"
    by (simp only: updater_iteration_well_formed [OF assms] context0_pass)
  have g: "getValues (context0 (updater_iteration now s)) 4 0x2504 2 = Inr [0, ?v]"
    using z by (simp add: c getValues_def decode_simps offset_def block_getValues_2)
  have sp: "split_int32_be ?v = [0, ?v]" using r by (intro split_small) simp_all
  show ?thesis by (simp add: sv g sp)
qed

section \<open>Client requests and the frame of a pass\<close>

lemma decode_read_fc: "decode (read_fc bk) = Inr bk"
  by (cases bk) (simp_all add: decode_def)

lemma decode_write_fc: "write_fc bk = Some fc \<Longrightarrow> decode fc = Inr bk"
  by (cases bk) (auto simp: decode_def)

lemma block_ok_bank:
  assumes "well_formed s"
  shows "block_ok (bank_of (context0 s) bk)"
  using assms by (cases bk) (simp_all add: well_formed_def)

lemma block_validate_undeclared:
  assumes "block_ok b" "a \<notin> bess_addresses" "address \<le> a" "a < address + count"
  shows "\<not> block_validate b address count"
proof -
  have "b a = None" using assms(1,2) by (auto simp: block_ok_def)
  moreover have "a \<in> set [address ..< address + count]" using assms(3,4) by simp
  ultimately show ?thesis
    unfolding block_validate_def list_all_iff by auto
qed

lemma validate_undeclared:
  assumes "well_formed s" "decode fc = Inr bk"
    and "a \<notin> bess_addresses" "address \<le> a" "a < address + count"
  shows "validate (context0 s) fc address count = Inr False"
proof -
  have z: "zero_mode (context0 s)" using assms(1) by (simp add: well_formed_def)
  have "\<not> block_validate (bank_of (context0 s) bk) address count"
    using block_ok_bank [OF assms(1)] assms(3-5) by (rule block_validate_undeclared)
  then show ?thesis using z by (simp add: validate_def assms(2) offset_def)
qed

lemma client_read_declared:
  assumes "well_formed s" "a \<in> bess_addresses"
  shows "\<exists>v. bank_of (context0 s) bk a = Some v \<and> client_read bk a 1 s = Values [v]"
proof -
  have z: "zero_mode (context0 s)" using assms(1) by (simp add: well_formed_def)
  obtain v where v: "bank_of (context0 s) bk a = Some v"
    using block_okD [OF block_ok_bank [OF assms(1)] assms(2)] by blast
  have "validate (context0 s) (read_fc bk) a 1 = Inr True"
    using z v by (simp add: validate_def decode_read_fc offset_def block_validate_def)
  moreover have "getValues (context0 s) (read_fc bk) a 1 = Inr [v]"
    using z v by (simp add: getValues_def decode_read_fc offset_def)
  ultimately have "client_read bk a 1 s = Values [v]"
    by (simp add: client_read_def)
  with v show ?thesis by blast
qed

lemma frame_refl: "frame s s"
  by (simp add: frame_def)

lemma frame_trans: "frame s s' \<Longrightarrow> frame s' s'' \<Longrightarrow> frame s s''"
  by (simp add: frame_def)

lemma write_values_input_frame:
  assumes "write_values 4 a vs s = Inr s'"
  shows "frame s s'"
  using assms
  by (auto simp: write_values_def setValues_def decode_simps frame_def)

lemma frame_mirror: "frame s (snd (mirror a b d s))"
  by (auto simp: mirror_def Let_def frame_refl write_values_input_frame split: sum.splits)

lemma frame_watchdog: "frame s (snd (watchdog s))"
  by (auto simp: watchdog_def Let_def frame_def split: sum.splits)

lemma frame_soc_update: "frame s (snd (soc_update now s))"
proof -
  define s1 where "s1 = s\<lparr>soc_value := soc_value s + soc_direction now\<rparr>"
  define s2 where "s2 = s1\<lparr>soc_value := max 1000 (min 9500 (soc_value s1))\<rparr>"
  have a: "frame s s2" by (simp add: frame_def s2_def s1_def)
  have b: "soc_update now s =
      (case write_values 4 0x2504 (split_int32_be (soc_value s2)) s2 of
         Inl e \<Rightarrow> (Some e, s2) | Inr s3 \<Rightarrow> (None, s3))"
    unfolding soc_update_def Let_def s2_def s1_def by (rule refl)
  show ?thesis
  proof (cases "write_values 4 0x2504 (split_int32_be (soc_value s2)) s2")
    case (Inl e)
    then show ?thesis using a by (simp add: b)
  next
    case (Inr s3)
    then have "frame s2 s3" by (rule write_values_input_frame)
    with a have "frame s s3" by (rule frame_trans)
    then show ?thesis using Inr by (simp add: b)
  qed
qed

lemma frame_and_then:
  assumes "\<And>s. frame s (snd (f s))" "\<And>s. frame s (snd (g s))"
  shows "frame s (snd (and_then f g s))"
proof (cases "f s")
  case (Pair r s')
  have fs: "frame s s'" using assms(1) [of s] Pair by simp
  show ?thesis
  proof (cases r)
    case None
    then have "and_then f g s = g s'" using Pair by (simp add: and_then_def)
    then show ?thesis using fs assms(2) [of s'] by (auto intro: frame_trans)
  next
    case (Some e)
    then have "and_then f g s = (Some e, s')" using Pair by (simp add: and_then_def)
    then show ?thesis using fs by simp
  qed
qed

lemma frame_updater_body: "frame s (snd (updater_body now s))"
  unfolding updater_body_def
  by (intro frame_and_then frame_mirror frame_watchdog frame_soc_update)

lemma frame_updater_iteration:
  "hr (context0 (updater_iteration now s)) = hr (context0 s)"
  "co (context0 (updater_iteration now s)) = co (context0 s)"
  "di (context0 (updater_iteration now s)) = di (context0 s)"
  "slept (updater_iteration now s) = slept s + 1"
  using frame_updater_body [of s now]
  by (auto simp: updater_iteration_def sleep_def frame_def split: prod.splits option.splits)

lemma slept_updater_loop: "slept (updater_loop nows s) = slept s + length nows"
  by (induction nows arbitrary: s) (simp_all add: frame_updater_iteration)

lemma holding_lost_fails:
  "updater_body 0 holding_lost = (Some (KeyError 0xd002), holding_lost)"
  by (simp add: updater_body_def and_then_def mirror_def read_first_def getValues_def
      decode_simps offset_def store_def init_sim_def holding_lost_def)

lemma card_bess_addresses: "card bess_addresses = 18"
  by (simp add: bess_addresses_def)

lemma bank_of_store: "bank_of store bk = BessDataBlock"
  by (cases bk) (simp_all add: store_def)

lemma validate_store:
  assumes "a \<in> bess_addresses"
  shows "validate store (read_fc bk) a 1 = Inr True"
proof -
  have "a \<in> dom BessDataBlock" using assms by (simp add: dom_BessDataBlock)
  then have "bank_of store bk a \<noteq> None" by (auto simp: bank_of_store)
  moreover have "zero_mode store" by (simp add: store_def)
  ultimately show ?thesis
    by (simp add: validate_def decode_read_fc offset_def block_validate_def)
qed

lemma holding_write_read:
  assumes "well_formed s" "a \<in> bess_addresses" "word16 v"
  shows "\<exists>s'. client_write HoldingRegisters a [v] s = (Written, s') \<and>
              client_read HoldingRegisters a 1 s' = Values [v] \<and>
              ir (context0 s') = ir (context0 s) \<and>
              co (context0 s') = co (context0 s) \<and>
              di (context0 s') = di (context0 s)"
proof -
  define s' where "s' = s\<lparr>context0 := (context0 s)\<lparr>hr := (hr (context0 s))(a \<mapsto> v)\<rparr>\<rparr>"
  have z: "zero_mode (context0 s)" and h: "block_ok (hr (context0 s))"
    using assms(1) by (simp_all add: well_formed_def)
  obtain x where x: "hr (context0 s) a = Some x"
    using block_okD [OF h assms(2)] by blast
  have val: "validate (context0 s) 16 a 1 = Inr True"
    using z x by (simp add: validate_def decode_simps offset_def block_validate_def)
  have wr: "write_values 16 a [v] s = Inr s'"
    using z by (simp add: write_values_def setValues_def decode_simps offset_def s'_def)
  have w: "client_write HoldingRegisters a [v] s = (Written, s')"
    using assms(3) val wr by (simp add: client_write_def)
  have "well_formed (snd (client_write HoldingRegisters a [v] s))"
    using assms(1) by (rule well_formed_client_write)
  then have wf': "well_formed s'" by (simp add: w)
  obtain y where y: "bank_of (context0 s') HoldingRegisters a = Some y"
    "client_read HoldingRegisters a 1 s' = Values [y]"
    using client_read_declared [OF wf' assms(2), of HoldingRegisters] by blast
  have "y = v" using y(1) by (simp add: s'_def)
  then have r: "client_read HoldingRegisters a 1 s' = Values [v]" using y(2) by simp
  have "ir (context0 s') = ir (context0 s)" "co (context0 s') = co (context0 s)"
    "di (context0 s') = di (context0 s)"
    by (simp_all add: s'_def)
  with w r show ?thesis by blast
qed

section \<open>Client writes followed by a pass\<close>


lemma upt_pair: "[a ..< a + 2] = [a, Suc a]"
  by (simp add: upt_rec)

lemma client_write_holding_single:
  assumes "well_formed s" "a \<in> bess_addresses" "word16 x"
  shows "client_write HoldingRegisters a [x] s =
           (Written, s\<lparr>context0 := (context0 s)\<lparr>hr := (hr (context0 s))(a \<mapsto> x)\<rparr>\<rparr>)"
proof -
  have z: "zero_mode (context0 s)" and h: "block_ok (hr (context0 s))"
    using assms(1) by (simp_all add: well_formed_def)
  obtain u where u: "hr (context0 s) a = Some u"
    using block_okD [OF h assms(2)] by blast
  have val: "validate (context0 s) 16 a 1 = Inr True"
    using z u by (simp add: validate_def decode_simps offset_def block_validate_def)
  have wr: "write_values 16 a [x] s =
      Inr (s\<lparr>context0 := (context0 s)\<lparr>hr := (hr (context0 s))(a \<mapsto> x)\<rparr>\<rparr>)"
    using z by (simp add: write_values_def setValues_def decode_simps offset_def)
  show ?thesis
    using assms(3) val wr by (simp add: client_write_def)
qed

lemma client_write_holding_pair:
  assumes "well_formed s" "a \<in> bess_addresses" "Suc a \<in> bess_addresses"
    and "word16 x" "word16 y"
  shows "client_write HoldingRegisters a [x, y] s =
           (Written, s\<lparr>context0 := (context0 s)\<lparr>hr := (hr (context0 s))(a \<mapsto> x, Suc a \<mapsto> y)\<rparr>\<rparr>)"
proof -
  have z: "zero_mode (context0 s)" and h: "block_ok (hr (context0 s))"
    using assms(1) by (simp_all add: well_formed_def)
  obtain u where u: "hr (context0 s) a = Some u"
    using block_okD [OF h assms(2)] by blast
  obtain w where w: "hr (context0 s) (Suc a) = Some w"
    using block_okD [OF h assms(3)] by blast
  have "block_validate (hr (context0 s)) a 2"
    using u w by (simp add: block_validate_def upt_pair)
  then have val: "validate (context0 s) 16 a (Suc (Suc 0)) = Inr True"
    using z by (simp add: validate_def decode_simps offset_def numeral_2_eq_2)
  have wr: "write_values 16 a [x, y] s =
      Inr (s\<lparr>context0 := (context0 s)\<lparr>hr := (hr (context0 s))(a \<mapsto> x, Suc a \<mapsto> y)\<rparr>\<rparr>)"
    using z by (simp add: write_values_def setValues_def decode_simps offset_def)
  show ?thesis
    using assms(4,5) val wr by (simp add: client_write_def)
qed

lemma getValues_holding_2:
  assumes "zero_mode ctx" "hr ctx a = Some x" "hr ctx (Suc a) = Some y"
  shows "getValues ctx 3 a 2 = Inr [x, y]"
  using assms by (simp add: getValues_def decode_simps offset_def block_getValues_2)

lemma getValues_input_2:
  assumes "zero_mode ctx" "ir ctx a = Some x" "ir ctx (Suc a) = Some y"
  shows "getValues ctx 4 a 2 = Inr [x, y]"
  using assms by (simp add: getValues_def decode_simps offset_def block_getValues_2)

lemma pass_mirrors:
  assumes "well_formed s"
    and "(src, dst) \<in> {(0xd002, 0x2502), (0xd004, 0x2518), (0xd006, 0x251a)}"
  shows "\<exists>h l. getValues (context0 s) 3 src 2 = Inr [h, l] \<and>
               getValues (context0 (updater_iteration now s)) 3 src 2 = Inr [h, l] \<and>
               getValues (context0 (updater_iteration now s)) 4 dst 2 = Inr [h, l]"
proof -
  have z: "zero_mode (context0 s)" and hb: "block_ok (hr (context0 s))"
    using assms(1) by (simp_all add: well_formed_def)
  have sa: "src \<in> bess_addresses" "Suc src \<in> bess_addresses"
    using assms(2) by (auto simp: bess_addresses_def)
  obtain h where h: "hr (context0 s) src = Some h" using block_okD [OF hb sa(1)] by blast
  obtain l where l: "hr (context0 s) (Suc src) = Some l" using block_okD [OF hb sa(2)] by blast
  let ?c = "context0 (updater_iteration now s)"
  have c: "?c = (context0 s)\<lparr>ir := (mirrored (hr (context0 s)) (ir (context0 s)))
        (0x2504 \<mapsto> 0, 0x2505 \<mapsto> next_soc now (soc_value s))\<rparr>"
    by (simp only: updater_iteration_well_formed [OF assms(1)] context0_pass)
  have z': "zero_mode ?c" and h': "hr ?c = hr (context0 s)" using z by (simp_all add: c)
  have i: "ir ?c dst = Some h" "ir ?c (Suc dst) = Some l"
    using assms(2) h l by (auto simp: c mirrored_def)
  have "getValues (context0 s) 3 src 2 = Inr [h, l]"
    using z h l by (rule getValues_holding_2)
  moreover have "getValues ?c 3 src 2 = Inr [h, l]"
    using z' h l by (intro getValues_holding_2) (simp_all add: h')
  moreover have "getValues ?c 4 dst 2 = Inr [h, l]"
    using z' i by (rule getValues_input_2)
  ultimately show ?thesis by blast
qed

lemma p_written_eq:
  "p_written = init_sim\<lparr>context0 := store\<lparr>hr := BessDataBlock(0xd004 \<mapsto> 0xFFFF, 0xd005 \<mapsto> 0xFFFF)\<rparr>\<rparr>"
proof -
  have "client_write HoldingRegisters 0xd004 [0xFFFF, 0xFFFF] init_sim =
      (Written, init_sim\<lparr>context0 := (context0 init_sim)\<lparr>hr :=
         (hr (context0 init_sim))(0xd004 \<mapsto> 0xFFFF, Suc 0xd004 \<mapsto> 0xFFFF)\<rparr>\<rparr>)"
    using well_formed_init_sim
    by (rule client_write_holding_pair) (simp_all add: bess_addresses_def word16_def)
  then show ?thesis by (simp add: p_written_def init_sim_def store_def)
qed

lemma well_formed_p_written: "well_formed p_written"
  unfolding p_written_def using well_formed_init_sim by (rule well_formed_client_write)

lemma p_written_reads:
  "getValues (context0 p_written) 3 0xd002 2 = Inr [0, 0]"
  "getValues (context0 p_written) 3 0xd004 2 = Inr [0xFFFF, 0xFFFF]"
  "getValues (context0 p_written) 3 0xd006 2 = Inr [0, 0]"
  by (simp_all add: p_written_eq store_def getValues_holding_2 BessDataBlock_lookup)

lemma bess_addresses_table:
  "bess_addresses = register_table HoldingRegisters \<union> register_table InputRegisters"
  by (auto simp: bess_addresses_def)

section \<open>The claims\<close>

text \<open>
  C1. A pass of the synchronization loop, with no client write in between, copies the
  command pairs word for word: the two words that the holding pair 0xd002, 0xd003 held
  before the pass are the two words of the input pair 0x2502, 0x2503 after it, and
  likewise for 0xd004, 0xd005 and 0x2518, 0x2519 and for 0xd006, 0xd007 and 0x251a,
  0x251b. The pass leaves the holding pairs as they were, so the input pairs equal the
  holding pairs when read right after the pass.
\<close>

theorem mirror_after_tick:
  assumes "well_formed s"
  shows "\<exists>a b c d e f.
     getValues (context0 s) 3 0xd002 2 = Inr [a, b] \<and>
     getValues (context0 (updater_iteration now s)) 3 0xd002 2 = Inr [a, b] \<and>
     getValues (context0 (updater_iteration now s)) 4 0x2502 2 = Inr [a, b] \<and>
     getValues (context0 s) 3 0xd004 2 = Inr [c, d] \<and>
     getValues (context0 (updater_iteration now s)) 3 0xd004 2 = Inr [c, d] \<and>
     getValues (context0 (updater_iteration now s)) 4 0x2518 2 = Inr [c, d] \<and>
     getValues (context0 s) 3 0xd006 2 = Inr [e, f] \<and>
     getValues (context0 (updater_iteration now s)) 3 0xd006 2 = Inr [e, f] \<and>
     getValues (context0 (updater_iteration now s)) 4 0x251a 2 = Inr [e, f]"
proof -
  obtain a b where 1: "getValues (context0 s) 3 0xd002 2 = Inr [a, b]"
    "getValues (context0 (updater_iteration now s)) 3 0xd002 2 = Inr [a, b]"
    "getValues (context0 (updater_iteration now s)) 4 0x2502 2 = Inr [a, b]"
    using pass_mirrors [OF assms, of "0xd002" "0x2502" now] by auto
  obtain c d where 2: "getValues (context0 s) 3 0xd004 2 = Inr [c, d]"
    "getValues (context0 (updater_iteration now s)) 3 0xd004 2 = Inr [c, d]"
    "getValues (context0 (updater_iteration now s)) 4 0x2518 2 = Inr [c, d]"
    using pass_mirrors [OF assms, of "0xd004" "0x2518" now] by auto
  obtain e f where 3: "getValues (context0 s) 3 0xd006 2 = Inr [e, f]"
    "getValues (context0 (updater_iteration now s)) 3 0xd006 2 = Inr [e, f]"
    "getValues (context0 (updater_iteration now s)) 4 0x251a 2 = Inr [e, f]"
    using pass_mirrors [OF assms, of "0xd006" "0x251a" now] by auto
  from 1 2 3 show ?thesis by blast
qed

theorem mirror_after_tick_witness:
  "well_formed p_written \<and>
   getValues (context0 p_written) 3 0xd004 2 = Inr [0xFFFF, 0xFFFF] \<and>
   getValues (context0 (updater_iteration 0 p_written)) 3 0xd004 2 = Inr [0xFFFF, 0xFFFF] \<and>
   getValues (context0 (updater_iteration 0 p_written)) 4 0x2518 2 = Inr [0xFFFF, 0xFFFF] \<and>
   getValues (context0 (updater_iteration 0 p_written)) 4 0x2502 2 = Inr [0, 0] \<and>
   getValues (context0 (updater_iteration 0 p_written)) 4 0x251a 2 = Inr [0, 0]"
  using well_formed_p_written mirror_after_tick [OF well_formed_p_written, of 0]
  by (auto simp: p_written_reads)

text \<open>
  C3. After any history of passes and client writes and for every clock reading, the
  state of charge that a pass computes lies between 1000 and 9500, and it is the value
  the pass leaves in the soc register pair 0x2504, 0x2505 of the input bank.
\<close>

theorem soc_clamped:
  assumes "well_formed s"
  shows "1000 \<le> soc_value (updater_iteration now (run evs s)) \<and>
         soc_value (updater_iteration now (run evs s)) \<le> 9500 \<and>
         getValues (context0 (updater_iteration now (run evs s))) 4 0x2504 2 =
           Inr (split_int32_be (soc_value (updater_iteration now (run evs s)))) \<and>
         logical_value (context0 (updater_iteration now (run evs s))) 4 0x2504 =
           Inr (soc_value (updater_iteration now (run evs s)))"
proof -
  let ?s = "run evs s"
  let ?v = "next_soc now (soc_value ?s)"
  have w: "well_formed ?s" using assms by (rule well_formed_run)
  then have z: "zero_mode (context0 ?s)" by (simp add: well_formed_def)
  have r: "1000 \<le> ?v" "?v \<le> 9500" by (rule next_soc_range)+
  have sv: "soc_value (updater_iteration now ?s) = ?v"
    by (simp only: updater_iteration_well_formed [OF w] soc_value_pass)
  have c: "context0 (updater_iteration now ?s) =
      (context0 ?s)\<lparr>ir := (mirrored (hr (context0 ?s)) (ir (context0 ?s)))
        (0x2504 \<mapsto> 0, 0x2505 \<mapsto> ?v)\<rparr>"
    by (simp only: updater_iteration_well_formed [OF w] context0_pass)
  have g: "getValues (context0 (updater_iteration now ?s)) 4 0x2504 2 = Inr [0, ?v]"
    using z by (simp add: c getValues_def decode_simps offset_def block_getValues_2)
  have sp: "split_int32_be ?v = [0, ?v]" using r by (intro split_small) simp_all
  have mg: "merge_int32_be 0 ?v = ?v" using r by (intro merge_small) simp_all
  show ?thesis
    using r by (simp add: sv g sp logical_value_def mg)
qed

theorem soc_clamped_witness:
  "well_formed init_sim \<and>
   1000 \<le> soc_value (updater_iteration 45 (run [Tick 0, Tick 1] init_sim)) \<and>
   soc_value (updater_iteration 45 (run [Tick 0, Tick 1] init_sim)) \<le> 9500 \<and>
   getValues (context0 (updater_iteration 45 (run [Tick 0, Tick 1] init_sim))) 4 0x2504 2 =
     Inr (split_int32_be (soc_value (updater_iteration 45 (run [Tick 0, Tick 1] init_sim)))) \<and>
   logical_value (context0 (updater_iteration 45 (run [Tick 0, Tick 1] init_sim))) 4 0x2504 =
     Inr (soc_value (updater_iteration 45 (run [Tick 0, Tick 1] init_sim)))"
  using well_formed_init_sim
    soc_clamped [OF well_formed_init_sim, of 45 "[Tick 0, Tick 1]"]
  by (rule conjI)

text \<open>
  C2. For every signed 32-bit integer \<open>v\<close>, \<open>split_int32_be\<close> returns a pair of words
  from which \<open>merge_int32_be\<close> gives \<open>v\<close> back; this covers -1, the least and the
  greatest signed 32-bit integer, and 0.
\<close>

theorem merge_split_round_trip:
  assumes "- (2 ^ 31) \<le> v" "v \<le> 2 ^ 31 - 1"
  shows "\<exists>hi lo. split_int32_be v = [hi, lo] \<and> merge_int32_be hi lo = v"
proof -
  have "merge_int32_be ((v div 65536) mod 65536) (v mod 65536) = v"
    using assms by (intro merge_split) simp_all
  then show ?thesis by (simp add: split_int32_be_arith)
qed

theorem merge_split_round_trip_witness:
  "- (2 ^ 31) \<le> (- 1 :: int) \<and> (- 1 :: int) \<le> 2 ^ 31 - 1 \<and>
   (\<exists>hi lo. split_int32_be (- 1) = [hi, lo] \<and> merge_int32_be hi lo = - 1)"
proof -
  have a: "- (2 ^ 31) \<le> (- 1 :: int)" and b: "(- 1 :: int) \<le> 2 ^ 31 - 1" by simp_all
  show ?thesis using a b merge_split_round_trip [OF a b] by blast
qed

text \<open>
  C9. For every pair of unsigned 16-bit words \<open>hi\<close> and \<open>lo\<close>, encoding the decoded
  value gives the two words back:
  \<open>split_int32_be (merge_int32_be hi lo) = [hi, lo]\<close>.
\<close>

theorem split_merge_round_trip:
  assumes "0 \<le> hi" "hi \<le> 0xFFFF" "0 \<le> lo" "lo \<le> 0xFFFF"
  shows "split_int32_be (merge_int32_be hi lo) = [hi, lo]"
  using assms by (intro split_merge) (simp_all add: word16_def)

theorem split_merge_round_trip_witness:
  "(0::int) \<le> 0xFFFF \<and> (0xFFFF::int) \<le> 0xFFFF \<and> (0::int) \<le> 0x1234 \<and> (0x1234::int) \<le> 0xFFFF \<and>
   split_int32_be (merge_int32_be 0xFFFF 0x1234) = [0xFFFF, 0x1234]"
proof -
  have a: "(0::int) \<le> 0xFFFF" and b: "(0xFFFF::int) \<le> 0xFFFF"
    and c: "(0::int) \<le> 0x1234" and d: "(0x1234::int) \<le> 0xFFFF" by simp_all
  show ?thesis using a b c d split_merge_round_trip [OF a b c d] by blast
qed

text \<open>
  C4. In a pass, a nonzero decoded watchdog value (holding pair 0xd000, 0xd001) resets
  the timeout counter to 0 and a zero value increments it by 1, with a warning logged
  exactly when the new counter exceeds 10. Over a history in which at least 11 passes
  run and every pass reads a zero watchdog value, the counter grows by the number of
  passes, ends above 10, and at least one more warning has been logged. The warning
  is advisory: the registers and the state of charge after a pass do not depend on the
  counter.
\<close>

theorem watchdog_accounting:
  assumes "well_formed s"
  shows "(logical_value (context0 s) 3 0xd000 \<noteq> Inr 0 \<longrightarrow>
            watchdog_timeout (updater_iteration now s) = 0 \<and>
            warnings (updater_iteration now s) = warnings s) \<and>
         (logical_value (context0 s) 3 0xd000 = Inr 0 \<longrightarrow>
            watchdog_timeout (updater_iteration now s) = watchdog_timeout s + 1 \<and>
            warnings (updater_iteration now s) =
              warnings s + (if watchdog_timeout s + 1 > 10 then 1 else 0)) \<and>
         (watchdog_silent evs s \<and> 11 \<le> ticks evs \<longrightarrow>
            watchdog_timeout (run evs s) = watchdog_timeout s + int (ticks evs) \<and>
            10 < watchdog_timeout (run evs s) \<and>
            warnings s < warnings (run evs s)) \<and>
         (0 \<le> c \<longrightarrow>
            context0 (updater_iteration now (s\<lparr>watchdog_timeout := c\<rparr>)) =
              context0 (updater_iteration now s) \<and>
            soc_value (updater_iteration now (s\<lparr>watchdog_timeout := c\<rparr>)) =
              soc_value (updater_iteration now s))"
proof (intro conjI impI)
  assume "logical_value (context0 s) 3 0xd000 \<noteq> Inr 0"
  then show "watchdog_timeout (updater_iteration now s) = 0"
    and "warnings (updater_iteration now s) = warnings s"
    using assms by (simp_all add: watchdog_nonzero)
next
  assume "logical_value (context0 s) 3 0xd000 = Inr 0"
  then show "watchdog_timeout (updater_iteration now s) = watchdog_timeout s + 1"
    and "warnings (updater_iteration now s) =
           warnings s + (if watchdog_timeout s + 1 > 10 then 1 else 0)"
    using assms by (simp_all only: watchdog_zero)
next
  assume a: "watchdog_silent evs s \<and> 11 \<le> ticks evs"
  have n: "0 \<le> watchdog_timeout s" using assms by (simp add: well_formed_def)
  from a silent_run [OF assms, of evs]
  have r: "watchdog_timeout (run evs s) = watchdog_timeout s + int (ticks evs)"
    "int (warnings s) + int (ticks evs) - max 0 (10 - watchdog_timeout s)
           \<le> int (warnings (run evs s))"
    by simp_all
  show "watchdog_timeout (run evs s) = watchdog_timeout s + int (ticks evs)" by (rule r)
  show "10 < watchdog_timeout (run evs s)" using r(1) a n by simp
  have "max 0 (10 - watchdog_timeout s) \<le> 10" using n by simp
  moreover have "11 \<le> int (ticks evs)" using a by simp
  ultimately have "int (warnings s) < int (warnings (run evs s))" using r(2) by linarith
  then show "warnings s < warnings (run evs s)" by simp
next
  assume "0 \<le> c"
  then show "context0 (updater_iteration now (s\<lparr>watchdog_timeout := c\<rparr>)) =
              context0 (updater_iteration now s)"
    and "soc_value (updater_iteration now (s\<lparr>watchdog_timeout := c\<rparr>)) =
              soc_value (updater_iteration now s)"
    using assms by (simp_all only: warning_no_register)
qed

theorem watchdog_accounting_witness:
  "well_formed init_sim \<and>
   logical_value (context0 init_sim) 3 0xd000 = Inr 0 \<and>
   watchdog_timeout (updater_iteration 0 init_sim) = watchdog_timeout init_sim + 1 \<and>
   watchdog_silent (map Tick [0, 1, 2, 3, 4, 5, 6, 7, 8, 9, 10]) init_sim \<and>
   11 \<le> ticks (map Tick [0, 1, 2, 3, 4, 5, 6, 7, 8, 9, 10]) \<and>
   10 < watchdog_timeout (run (map Tick [0, 1, 2, 3, 4, 5, 6, 7, 8, 9, 10]) init_sim) \<and>
   warnings init_sim < warnings (run (map Tick [0, 1, 2, 3, 4, 5, 6, 7, 8, 9, 10]) init_sim) \<and>
   context0 (updater_iteration 0 (init_sim\<lparr>watchdog_timeout := 10\<rparr>)) =
     context0 (updater_iteration 0 init_sim) \<and>
   well_formed watchdog_fed \<and>
   logical_value (context0 watchdog_fed) 3 0xd000 \<noteq> Inr 0 \<and>
   watchdog_timeout (updater_iteration 0 watchdog_fed) = 0"
proof -
  let ?evs = "map Tick [0, 1, 2, 3, 4, 5, 6, 7, 8, 9, 10]"
  have z: "logical_value (context0 init_sim) 3 0xd000 = Inr 0"
    using logical_value_init [of "0xd000" 0 0 3] by (simp add: BessDataBlock_lookup merge_zero)
  have q: "watchdog_silent ?evs init_sim"
    using well_formed_init_sim z by (rule silent_ticks)
  have n: "11 \<le> ticks ?evs" by (simp only: ticks_map_Tick) simp
  have f: "logical_value (context0 watchdog_fed) 3 0xd000 \<noteq> Inr 0"
    by (simp add: logical_value_watchdog_fed)
  note a = watchdog_accounting [OF well_formed_init_sim, of 0 ?evs 10]
  note b = watchdog_accounting [OF well_formed_watchdog_fed, of 0 "[]" 0]
  show ?thesis
    using a b z q n f well_formed_init_sim well_formed_watchdog_fed by simp
qed

text \<open>
  C5. At startup the internal state of charge is 5000, but the input registers 0x2504,
  0x2505 hold 5000 and 0: read with the high word at the lower address, as the data
  model says and as every pass of the loop writes the pair, they decode to 327680000,
  not to 5000. After the first pass the pair holds 0 and 4999 or 5001. Every command
  and state pair decodes to 0 at startup.
\<close>

theorem soc_initial_registers:
  "soc_value init_sim = 5000 \<and>
   getValues (context0 init_sim) 4 0x2504 2 = Inr [5000, 0] \<and>
   logical_value (context0 init_sim) 4 0x2504 = Inr 327680000 \<and>
   (\<exists>v. getValues (context0 (updater_iteration now init_sim)) 4 0x2504 2 = Inr [0, v] \<and>
        (v = 4999 \<or> v = 5001)) \<and>
   logical_value (context0 init_sim) 3 0xd000 = Inr 0 \<and>
   logical_value (context0 init_sim) 3 0xd002 = Inr 0 \<and>
   logical_value (context0 init_sim) 3 0xd004 = Inr 0 \<and>
   logical_value (context0 init_sim) 3 0xd006 = Inr 0 \<and>
   logical_value (context0 init_sim) 3 0xd00a = Inr 0 \<and>
   logical_value (context0 init_sim) 4 0x2502 = Inr 0 \<and>
   logical_value (context0 init_sim) 4 0x2518 = Inr 0 \<and>
   logical_value (context0 init_sim) 4 0x251a = Inr 0"
proof -
  have s: "soc_value init_sim = 5000" by (simp add: init_sim_def)
  have g: "getValues (context0 init_sim) 4 0x2504 2 = Inr [5000, 0]"
    by (intro getValues_init) (simp_all add: BessDataBlock_lookup)
  have l: "logical_value (context0 init_sim) 4 0x2504 = Inr 327680000"
    by (simp add: logical_value_def g merge_int32_be_arith)
  let ?v = "soc_value (updater_iteration now init_sim)"
  have v: "?v = next_soc now 5000"
    by (simp only: updater_iteration_well_formed [OF well_formed_init_sim] soc_value_pass s)
  have r: "1000 \<le> ?v" "?v \<le> 9500" unfolding v by (rule next_soc_range)+
  have "getValues (context0 (updater_iteration now init_sim)) 4 0x2504 2 =
      Inr (split_int32_be ?v)"
    using soc_value_written [OF well_formed_init_sim, of now] by simp
  moreover have "split_int32_be ?v = [0, ?v]" using r by (intro split_small) simp_all
  moreover have "?v = 4999 \<or> ?v = 5001"
    by (simp add: v next_soc_def soc_direction_def)
  ultimately have t: "\<exists>v. getValues (context0 (updater_iteration now init_sim)) 4 0x2504 2 = Inr [0, v] \<and>
        (v = 4999 \<or> v = 5001)" by auto
  have z: "logical_value (context0 init_sim) fc a = Inr 0"
    if "BessDataBlock a = Some 0" "BessDataBlock (Suc a) = Some 0" "fc = 3 \<or> fc = 4" for fc a
    using logical_value_init [OF that] by (simp add: merge_zero)
  show ?thesis
    using s g l t by (simp add: z BessDataBlock_lookup)
qed

text \<open>
  C6, as amended. The addresses that the banks declare are the addresses that the
  register table lists for the holding bank together with those it lists for the input
  bank. In every bank, a client read or write whose range covers an address outside
  this set is answered with the illegal-data-address exception and leaves the
  datastore unchanged; no default value is returned. A read of an address of the set
  returns the value stored there, in whichever bank it is made.
\<close>

theorem undeclared_address_rejected:
  assumes "well_formed s"
  shows "bess_addresses = register_table HoldingRegisters \<union> register_table InputRegisters \<and>
         (a \<notin> bess_addresses \<and> address \<le> a \<and> a < address + count \<longrightarrow>
            client_read bk address count s = IllegalDataAddress) \<and>
         (a \<notin> bess_addresses \<and> address \<le> a \<and> a < address + length vals \<and>
          write_fc bk \<noteq> None \<and> list_all word16 vals \<longrightarrow>
            client_write bk address vals s = (IllegalDataAddress, s)) \<and>
         (a \<in> bess_addresses \<longrightarrow>
            (\<exists>v. bank_of (context0 s) bk a = Some v \<and> client_read bk a 1 s = Values [v]))"
proof (intro conjI impI)
  show "bess_addresses = register_table HoldingRegisters \<union> register_table InputRegisters"
    by (rule bess_addresses_table)
next
  assume h: "a \<notin> bess_addresses \<and> address \<le> a \<and> a < address + count"
  then have "validate (context0 s) (read_fc bk) address count = Inr False"
    using assms decode_read_fc by (intro validate_undeclared [where a = a and bk = bk]) simp_all
  moreover have "count \<noteq> 0" using h by auto
  ultimately show "client_read bk address count s = IllegalDataAddress"
    by (simp add: client_read_def)
next
  assume h: "a \<notin> bess_addresses \<and> address \<le> a \<and> a < address + length vals \<and>
          write_fc bk \<noteq> None \<and> list_all word16 vals"
  then obtain fc where fc: "write_fc bk = Some fc" by auto
  have "validate (context0 s) fc address (length vals) = Inr False"
    using assms decode_write_fc [OF fc] h
    by (intro validate_undeclared [where a = a and bk = bk]) simp_all
  moreover have "vals \<noteq> []" using h by auto
  ultimately show "client_write bk address vals s = (IllegalDataAddress, s)"
    using h by (simp add: client_write_def fc)
next
  assume "a \<in> bess_addresses"
  then show "\<exists>v. bank_of (context0 s) bk a = Some v \<and> client_read bk a 1 s = Values [v]"
    using assms by (intro client_read_declared)
qed

theorem undeclared_address_rejected_witness:
  "well_formed init_sim \<and>
   (0::nat) \<notin> bess_addresses \<and> (0::nat) \<le> 0 \<and> (0::nat) < 0 + 1 \<and>
   client_read InputRegisters 0 1 init_sim = IllegalDataAddress \<and>
   (0::nat) < 0 + length [7::int] \<and> write_fc HoldingRegisters \<noteq> None \<and> list_all word16 [7] \<and>
   client_write HoldingRegisters 0 [7] init_sim = (IllegalDataAddress, init_sim) \<and>
   (0xd002::nat) \<in> bess_addresses \<and>
   (\<exists>v. bank_of (context0 init_sim) HoldingRegisters 0xd002 = Some v \<and>
        client_read HoldingRegisters 0xd002 1 init_sim = Values [v])"
proof -
  have a: "(0::nat) \<notin> bess_addresses" by (simp add: bess_addresses_def)
  have b: "(0xd002::nat) \<in> bess_addresses" by (simp add: bess_addresses_def)
  have c: "list_all word16 [7]" by (simp add: word16_def)
  note r = undeclared_address_rejected [OF well_formed_init_sim,
      where a = 0 and address = 0 and count = 1 and bk = InputRegisters]
  note w = undeclared_address_rejected [OF well_formed_init_sim,
      where a = 0 and address = 0 and vals = "[7]" and bk = HoldingRegisters]
  note d = undeclared_address_rejected [OF well_formed_init_sim,
      where a = "0xd002" and bk = HoldingRegisters]
  show ?thesis
    using well_formed_init_sim a b c r w d by simp
qed

text \<open>
  C6, as first stated, fails: an address that the table lists for one bank only can be
  read in the other banks too, and written through the holding bank. Holding address
  0x2504 and input and coil address 0xd000 are not in the table, yet reads return the
  stored values 5000 and 0.
\<close>

theorem cross_bank_read:
  "(0x2504::nat) \<notin> register_table HoldingRegisters \<and>
   client_read HoldingRegisters 0x2504 1 init_sim = Values [5000] \<and>
   (0xd000::nat) \<notin> register_table InputRegisters \<and>
   client_read InputRegisters 0xd000 1 init_sim = Values [0] \<and>
   (0xd000::nat) \<notin> register_table Coils \<and>
   client_read Coils 0xd000 1 init_sim = Values [0] \<and>
   fst (client_write HoldingRegisters 0x2504 [7] init_sim) = Written"
proof -
  have r: "client_read bk a 1 init_sim = Values [v]"
    if A: "a \<in> bess_addresses" and B: "BessDataBlock a = Some v" for bk a v
  proof -
    obtain u where u: "bank_of (context0 init_sim) bk a = Some u"
      "client_read bk a 1 init_sim = Values [u]"
      using client_read_declared [OF well_formed_init_sim A, of bk] by blast
    have "bank_of (context0 init_sim) bk = BessDataBlock"
      by (simp add: init_sim_def bank_of_store)
    with u B show ?thesis by simp
  qed
  have w: "client_write HoldingRegisters 0x2504 [7] init_sim =
      (Written, init_sim\<lparr>context0 := (context0 init_sim)\<lparr>hr :=
          (hr (context0 init_sim))(0x2504 \<mapsto> 7)\<rparr>\<rparr>)"
    using well_formed_init_sim
    by (rule client_write_holding_single) (simp_all add: bess_addresses_def word16_def)
  have "client_read HoldingRegisters 0x2504 1 init_sim = Values [5000]"
    by (rule r) (simp_all add: bess_addresses_def BessDataBlock_lookup)
  moreover have "client_read InputRegisters 0xd000 1 init_sim = Values [0]"
    by (rule r) (simp_all add: bess_addresses_def BessDataBlock_lookup)
  moreover have "client_read Coils 0xd000 1 init_sim = Values [0]"
    by (rule r) (simp_all add: bess_addresses_def BessDataBlock_lookup)
  ultimately show ?thesis by (simp add: w)
qed

text \<open>
  C7. When the body of a pass raises, the handler logs the error, the pass sleeps its
  one second as every pass does, and the loop goes on with the next pass from the state
  the failed pass left.
\<close>

theorem failed_tick_continues:
  assumes "updater_body now s = (Some e, s')"
  shows "updater_iteration now s = sleep 1 (s'\<lparr>logged := logged s' @ [LogError e]\<rparr>) \<and>
         last (logged (updater_iteration now s)) = LogError e \<and>
         slept (updater_iteration now s) = slept s + 1 \<and>
         updater_loop (now # nows) s = updater_loop nows (updater_iteration now s) \<and>
         slept (updater_loop (now # nows) s) = slept s + 1 + length nows"
proof -
  have i: "updater_iteration now s = sleep 1 (s'\<lparr>logged := logged s' @ [LogError e]\<rparr>)"
    using assms by (simp add: updater_iteration_def)
  have l: "last (logged (updater_iteration now s)) = LogError e"
    by (simp add: i sleep_def)
  have n: "slept (updater_loop (now # nows) s) = slept s + 1 + length nows"
    by (simp add: slept_updater_loop frame_updater_iteration(4))
  have t: "slept (updater_iteration now s) = slept s + 1"
    by (rule frame_updater_iteration(4))
  have u: "updater_loop (now # nows) s = updater_loop nows (updater_iteration now s)"
    by simp
  show ?thesis
    using i l t u n by blast
qed

theorem failed_tick_continues_witness:
  "updater_body 0 holding_lost = (Some (KeyError 0xd002), holding_lost) \<and>
   updater_iteration 0 holding_lost =
     sleep 1 (holding_lost\<lparr>logged := logged holding_lost @ [LogError (KeyError 0xd002)]\<rparr>) \<and>
   last (logged (updater_iteration 0 holding_lost)) = LogError (KeyError 0xd002) \<and>
   slept (updater_iteration 0 holding_lost) = slept holding_lost + 1 \<and>
   updater_loop [0, 1] holding_lost = updater_loop [1] (updater_iteration 0 holding_lost) \<and>
   slept (updater_loop [0, 1] holding_lost) = slept holding_lost + 1 + length [1::real]"
  using holding_lost_fails failed_tick_continues [OF holding_lost_fails, of "[1]"]
  by (rule conjI)

text \<open>
  C10. The four banks of the context are built from the same \<open>BessDataBlock\<close>: each
  declares the same 18 addresses with the same initial values. Every one of these
  addresses is therefore valid in every bank, a client can write and read back any of
  them (the input-register addresses included) through the holding-register functions
  without touching the other banks, and a pass of the loop never changes the holding,
  coil or discrete-input bank.
\<close>

theorem four_identical_banks:
  "hr store = BessDataBlock \<and> ir store = BessDataBlock \<and>
   co store = BessDataBlock \<and> di store = BessDataBlock \<and>
   dom BessDataBlock = bess_addresses \<and> card bess_addresses = 18 \<and>
   (a \<in> bess_addresses \<longrightarrow> validate store (read_fc bk) a 1 = Inr True) \<and>
   (well_formed s \<and> a \<in> bess_addresses \<and> word16 v \<longrightarrow>
      (\<exists>s'. client_write HoldingRegisters a [v] s = (Written, s') \<and>
            client_read HoldingRegisters a 1 s' = Values [v] \<and>
            ir (context0 s') = ir (context0 s) \<and>
            co (context0 s') = co (context0 s) \<and>
            di (context0 s') = di (context0 s))) \<and>
   hr (context0 (updater_iteration now s)) = hr (context0 s) \<and>
   co (context0 (updater_iteration now s)) = co (context0 s) \<and>
   di (context0 (updater_iteration now s)) = di (context0 s)"
proof -
  have b: "hr store = BessDataBlock" "ir store = BessDataBlock"
    "co store = BessDataBlock" "di store = BessDataBlock"
    by (simp_all add: store_def)
  have v: "a \<in> bess_addresses \<longrightarrow> validate store (read_fc bk) a 1 = Inr True"
    using validate_store [of a bk] by blast
  have w: "well_formed s \<and> a \<in> bess_addresses \<and> word16 v \<longrightarrow>
      (\<exists>s'. client_write HoldingRegisters a [v] s = (Written, s') \<and>
            client_read HoldingRegisters a 1 s' = Values [v] \<and>
            ir (context0 s') = ir (context0 s) \<and>
            co (context0 s') = co (context0 s) \<and>
            di (context0 s') = di (context0 s))"
    using holding_write_read [of s a v] by blast
  show ?thesis
    using b v w dom_BessDataBlock card_bess_addresses frame_updater_iteration(1-3) [of now s]
    by blast
qed

theorem four_identical_banks_witness:
  "(0x2504::nat) \<in> bess_addresses \<and> validate store (read_fc Coils) 0x2504 1 = Inr True \<and>
   well_formed init_sim \<and> word16 7 \<and>
   (\<exists>s'. client_write HoldingRegisters 0x2504 [7] init_sim = (Written, s') \<and>
         client_read HoldingRegisters 0x2504 1 s' = Values [7] \<and>
         ir (context0 s') = ir (context0 init_sim) \<and>
         co (context0 s') = co (context0 init_sim) \<and>
         di (context0 s') = di (context0 init_sim)) \<and>
   hr (context0 (updater_iteration 0 init_sim)) = hr (context0 init_sim)"
proof -
  have a: "(0x2504::nat) \<in> bess_addresses" by (simp add: bess_addresses_def)
  have c: "word16 7" by (simp add: word16_def)
  note t = four_identical_banks [where a = "0x2504" and bk = Coils and s = init_sim
      and v = 7 and now = 0]
  show ?thesis
    using a c well_formed_init_sim t by blast
qed




end
